theory Spec2Isabelle
  imports Main "HOL-Library.Word" "HOL-Library.Sublist"
begin

unbundle bit_operations_syntax

section \<open>JavaScript numbers and operators\<close>

text \<open>
  Every number that \<open>lib/hd/keyorigininfo.js\<close> stores or compares is an integer-valued
  JavaScript number, modelled as \<open>int\<close>. The 32-bit coercions of the bitwise operators are
  written out: \<open>x >>> 0\<close> is ToUint32, and \<open>a | b\<close>, \<open>a & b\<close> coerce both operands to
  32 bits and return the result as a \<^emph>\<open>signed\<close> 32-bit value (ToInt32).
\<close>

type_synonym byte = "8 word"

definition toUint32 :: "int \<Rightarrow> int" where
  "toUint32 x = x mod 2 ^ 32"

definition toInt32 :: "int \<Rightarrow> int" where
  "toInt32 x = (let m = x mod 2 ^ 32 in if m < 2 ^ 31 then m else m - 2 ^ 32)"

definition js_or :: "int \<Rightarrow> int \<Rightarrow> int" where
  "js_or a b = toInt32 (toUint32 a OR toUint32 b)"

definition js_and :: "int \<Rightarrow> int \<Rightarrow> int" where
  "js_and a b = toInt32 (toUint32 a AND toUint32 b)"

text \<open>The test \<open>(p >>> 0) === p\<close> of the assertions.\<close>

definition isUint32 :: "int \<Rightarrow> bool" where
  "isUint32 p \<longleftrightarrow> toUint32 p = p"

text \<open>Truthiness of a number: \<open>0\<close> is falsy.\<close>

definition truthy :: "int \<Rightarrow> bool" where
  "truthy n \<longleftrightarrow> n \<noteq> 0"

text \<open>Reading \<open>arr[i]\<close>: an index past the end yields \<open>undefined\<close>, here \<open>None\<close>.\<close>

definition js_index :: "'a list \<Rightarrow> nat \<Rightarrow> 'a option" where
  "js_index xs i = (if i < length xs then Some (xs ! i) else None)"

text \<open>
  Modelled from the spec: the constant \<open>common.HARDENED\<close> of \<open>lib/hd/common.js\<close>, the
  hardened flag, bit 31 (\<open>0x80000000\<close>).
\<close>

definition HARDENED :: int where
  "HARDENED = 0x80000000"

datatype error = AssertionError | EncodingError | RangeError | PathError

section \<open>The value object\<close>

record KeyOriginInfo =
  fingerPrint :: int
  path :: "int list"

text \<open>The constructor without options: \<open>fingerPrint = -1\<close>, \<open>path = []\<close>.\<close>

definition new :: KeyOriginInfo where
  "new = \<lparr>fingerPrint = - 1, path = []\<rparr>"

definition clear :: "KeyOriginInfo \<Rightarrow> KeyOriginInfo" where
  "clear this = this\<lparr>fingerPrint := - 1, path := []\<rparr>"

subsection \<open>equals\<close>

text \<open>
  The loop \<open>for (const i in this.path)\<close> visits the indices of \<open>this.path\<close> only and
  returns \<open>false\<close> at the first index where \<open>this.path[i] !== keyInfo.path[i]\<close>.
\<close>

fun equals_loop :: "nat list \<Rightarrow> int list \<Rightarrow> int list \<Rightarrow> bool" where
  "equals_loop [] a b = True"
| "equals_loop (i # is) a b =
     (if js_index a i \<noteq> js_index b i then False else equals_loop is a b)"

definition equals :: "KeyOriginInfo \<Rightarrow> KeyOriginInfo \<Rightarrow> bool" where
  "equals this keyInfo =
     (if fingerPrint this \<noteq> fingerPrint keyInfo then False
      else equals_loop [0 ..< length (path this)] (path this) (path keyInfo))"

section \<open>The reader and writer of bufio\<close>

text \<open>
  \<open>bufio\<close> is an external package. Its reader and writer are modelled after the
  package's behaviour on the five calls the class makes: \<open>readU32BE\<close> and \<open>writeU32BE\<close>
  are big-endian, \<open>readU32\<close> and \<open>writeU32\<close> are little-endian, every read first checks
  that four bytes are left and throws an encoding error otherwise, and \<open>bio.write(size)\<close>
  is a writer over a buffer of exactly \<open>size\<close> bytes whose \<open>render\<close> requires the buffer
  to be full. A write stores \<open>num\<close> in a byte (keeping \<open>num mod 256\<close>) and goes on with
  \<open>num >>>= 8\<close>.
\<close>

record reader =
  rdata :: "byte list"
  roffset :: nat

definition bio_read :: "byte list \<Rightarrow> reader" where
  "bio_read d = \<lparr>rdata = d, roffset = 0\<rparr>"

definition left :: "reader \<Rightarrow> nat" where
  "left br = length (rdata br) - roffset br"

text \<open>The two decoders of \<open>bufio/lib/encoding\<close> that the reader calls.\<close>

definition enc_readU32BE :: "byte list \<Rightarrow> nat \<Rightarrow> int" where
  "enc_readU32BE d off =
     uint (d ! off) * 0x1000000 + uint (d ! (off + 1)) * 0x10000
     + uint (d ! (off + 2)) * 0x100 + uint (d ! (off + 3))"

definition enc_readU32 :: "byte list \<Rightarrow> nat \<Rightarrow> int" where
  "enc_readU32 d off =
     uint (d ! off) + uint (d ! (off + 1)) * 0x100
     + uint (d ! (off + 2)) * 0x10000 + uint (d ! (off + 3)) * 0x1000000"

definition readU32BE :: "reader \<Rightarrow> error + int \<times> reader" where
  "readU32BE br =
     (let d = rdata br; off = roffset br in
      if off + 4 > length d then Inl EncodingError
      else Inr (enc_readU32BE d off, br\<lparr>roffset := off + 4\<rparr>))"

definition readU32 :: "reader \<Rightarrow> error + int \<times> reader" where
  "readU32 br =
     (let d = rdata br; off = roffset br in
      if off + 4 > length d then Inl EncodingError
      else Inr (enc_readU32 d off, br\<lparr>roffset := off + 4\<rparr>))"

text \<open>The four bytes of a write, least significant first.\<close>

definition u32_bytes :: "int \<Rightarrow> byte list" where
  "u32_bytes num =
     (let n1 = toUint32 num div 2 ^ 8; n2 = n1 div 2 ^ 8; n3 = n2 div 2 ^ 8 in
      [word_of_int num, word_of_int n1, word_of_int n2, word_of_int n3])"

record writer =
  wsize :: nat
  wbytes :: "byte list"

definition bio_write :: "nat \<Rightarrow> writer" where
  "bio_write n = \<lparr>wsize = n, wbytes = []\<rparr>"

definition writeU32 :: "int \<Rightarrow> writer \<Rightarrow> error + writer" where
  "writeU32 num bw =
     (if length (wbytes bw) + 4 > wsize bw then Inl EncodingError
      else Inr (bw\<lparr>wbytes := wbytes bw @ u32_bytes num\<rparr>))"

definition writeU32BE :: "int \<Rightarrow> writer \<Rightarrow> error + writer" where
  "writeU32BE num bw =
     (if length (wbytes bw) + 4 > wsize bw then Inl EncodingError
      else Inr (bw\<lparr>wbytes := wbytes bw @ rev (u32_bytes num)\<rparr>))"

definition render :: "writer \<Rightarrow> error + byte list" where
  "render bw = (if length (wbytes bw) \<noteq> wsize bw then Inl EncodingError else Inr (wbytes bw))"

text \<open>\<open>Buffer.readUInt32BE(offset)\<close> of Node, which throws a range error past the end.\<close>

definition readUInt32BE :: "byte list \<Rightarrow> nat \<Rightarrow> error + int" where
  "readUInt32BE d off =
     (if off + 4 > length d then Inl RangeError else Inr (enc_readU32BE d off))"

section \<open>Binary codec\<close>

text \<open>
  \<open>fromReader\<close>: the fingerprint is read big-endian, then \<open>while (br.left())\<close> pushes
  one \<open>readU32\<close> per round.
\<close>

function fromReader_loop :: "KeyOriginInfo \<Rightarrow> reader \<Rightarrow> error + KeyOriginInfo" where
  "fromReader_loop this br =
     (if left br \<noteq> 0 then
        (case readU32 br of
           Inl e \<Rightarrow> Inl e
         | Inr r \<Rightarrow> fromReader_loop (this\<lparr>path := path this @ [fst r]\<rparr>) (snd r))
      else Inr this)"
  by pat_completeness auto
termination
  by (relation "measure (\<lambda>(this, br). left br)")
     (auto simp: readU32_def left_def Let_def split: if_splits)

declare fromReader_loop.simps [simp del]

definition fromReader :: "KeyOriginInfo \<Rightarrow> reader \<Rightarrow> error + KeyOriginInfo" where
  "fromReader this br =
     (case readU32BE br of
        Inl e \<Rightarrow> Inl e
      | Inr r \<Rightarrow> fromReader_loop (this\<lparr>fingerPrint := fst r\<rparr>) (snd r))"

definition fromRaw :: "KeyOriginInfo \<Rightarrow> byte list \<Rightarrow> error + KeyOriginInfo" where
  "fromRaw this d = fromReader this (bio_read d)"

text \<open>The static \<open>fromRaw\<close>: \<open>new this().fromRaw(data)\<close>.\<close>

definition decode :: "byte list \<Rightarrow> error + KeyOriginInfo" where
  "decode d = fromRaw new d"

fun toWriter_loop :: "int list \<Rightarrow> writer \<Rightarrow> error + writer" where
  "toWriter_loop [] bw = Inr bw"
| "toWriter_loop (p # ps) bw =
     (case writeU32 p bw of Inl e \<Rightarrow> Inl e | Inr bw' \<Rightarrow> toWriter_loop ps bw')"

definition toWriter :: "KeyOriginInfo \<Rightarrow> writer \<Rightarrow> error + writer" where
  "toWriter this bw =
     (case writeU32BE (fingerPrint this) bw of
        Inl e \<Rightarrow> Inl e
      | Inr bw' \<Rightarrow> toWriter_loop (path this) bw')"

definition getSize :: "KeyOriginInfo \<Rightarrow> nat" where
  "getSize this = 4 + length (path this) * 4"

definition toRaw :: "KeyOriginInfo \<Rightarrow> error + byte list" where
  "toRaw this =
     (case toWriter this (bio_write (getSize this)) of
        Inl e \<Rightarrow> Inl e
      | Inr bw \<Rightarrow> render bw)"

section \<open>Construction from options and from JSON\<close>

text \<open>
  The \<open>fingerPrint\<close> field of an options or JSON object is absent or a number; the
  \<open>path\<close> field is absent, an array of numbers or a string.
\<close>

datatype path_value = NoPath | PathArray "int list" | PathString string

record options =
  o_fingerPrint :: "int option"
  o_path :: path_value

text \<open>\<open>if (options.path)\<close>: an array is truthy even when empty, the empty string is falsy.\<close>

fun truthy_path :: "path_value \<Rightarrow> bool" where
  "truthy_path NoPath = False"
| "truthy_path (PathArray ps) = True"
| "truthy_path (PathString s) = (s \<noteq> [])"

text \<open>
  \<open>common.parsePath\<close> of \<open>lib/hd/common.js\<close> is a parameter \<open>parsePath\<close> of the
  operations that call it (always with \<open>hard = true\<close>); it receives the \<open>path\<close> field as
  it is.
\<close>

type_synonym path_parser = "path_value \<Rightarrow> error + int list"

definition fromOptions ::
  "path_parser \<Rightarrow> KeyOriginInfo \<Rightarrow> options \<Rightarrow> error + KeyOriginInfo" where
  "fromOptions parsePath this opts =
     (case (case o_fingerPrint opts of
              None \<Rightarrow> Inr this
            | Some fp \<Rightarrow>
                if truthy fp then
                  (if isUint32 fp then Inr (this\<lparr>fingerPrint := fp\<rparr>) else Inl AssertionError)
                else Inr this) of
        Inl e \<Rightarrow> Inl e
      | Inr this1 \<Rightarrow>
          if truthy_path (o_path opts) then
            (case o_path opts of
               PathArray ps \<Rightarrow>
                 if list_all isUint32 ps then Inr (this1\<lparr>path := ps\<rparr>) else Inl AssertionError
             | other \<Rightarrow>
                 (case parsePath other of
                    Inl e \<Rightarrow> Inl e
                  | Inr ps \<Rightarrow> Inr (this1\<lparr>path := ps\<rparr>)))
          else Inr this1)"

text \<open>\<open>new KeyOriginInfo(options)\<close>; \<open>None\<close> is the call without options.\<close>

definition constructor :: "path_parser \<Rightarrow> options option \<Rightarrow> error + KeyOriginInfo" where
  "constructor parsePath opts =
     (case opts of None \<Rightarrow> Inr new | Some os \<Rightarrow> fromOptions parsePath new os)"

definition clone :: "path_parser \<Rightarrow> KeyOriginInfo \<Rightarrow> error + KeyOriginInfo" where
  "clone parsePath this =
     constructor parsePath
       (Some \<lparr>o_fingerPrint = Some (fingerPrint this), o_path = PathArray (path this)\<rparr>)"

fun fromJSON_loop :: "int list \<Rightarrow> KeyOriginInfo \<Rightarrow> error + KeyOriginInfo" where
  "fromJSON_loop [] this = Inr this"
| "fromJSON_loop (p # ps) this =
     (if isUint32 p then fromJSON_loop ps (this\<lparr>path := path this @ [p]\<rparr>)
      else Inl AssertionError)"

definition fromJSON ::
  "path_parser \<Rightarrow> KeyOriginInfo \<Rightarrow> options \<Rightarrow> error + KeyOriginInfo" where
  "fromJSON parsePath this json =
     (case (case o_fingerPrint json of
              None \<Rightarrow> Inr this
            | Some fp \<Rightarrow>
                if truthy fp then
                  (if isUint32 fp then Inr (this\<lparr>fingerPrint := fp\<rparr>) else Inl AssertionError)
                else Inr this) of
        Inl e \<Rightarrow> Inl e
      | Inr this1 \<Rightarrow>
          if truthy_path (o_path json) then
            (case o_path json of
               PathArray ps \<Rightarrow>
                 if length ps > 0 then fromJSON_loop ps this1
                 else (case parsePath (PathArray ps) of
                         Inl e \<Rightarrow> Inl e
                       | Inr qs \<Rightarrow> Inr (this1\<lparr>path := qs\<rparr>))
             | other \<Rightarrow>
                 (case parsePath other of
                    Inl e \<Rightarrow> Inl e
                  | Inr qs \<Rightarrow> Inr (this1\<lparr>path := qs\<rparr>)))
          else Inr this1)"

section \<open>Derivation from a wallet key\<close>

record WalletKey =
  publicKey :: "byte list"
  account :: int
  branch :: int
  index :: int

text \<open>
  The digest \<open>hash160.digest\<close> (an external package) is a parameter: any function from bytes
  to bytes.
\<close>

definition fromWalletKey ::
  "(byte list \<Rightarrow> byte list) \<Rightarrow> KeyOriginInfo \<Rightarrow> WalletKey \<Rightarrow> error + KeyOriginInfo" where
  "fromWalletKey hash160 this wk =
     (case readUInt32BE (hash160 (publicKey wk)) 0 of
        Inl e \<Rightarrow> Inl e
      | Inr fp \<Rightarrow>
          Inr (this\<lparr>fingerPrint := fp,
                    path := path this @ [js_or (account wk) HARDENED, branch wk, index wk]\<rparr>))"

section \<open>Formatting\<close>

text \<open>The decimal digits that a template literal prints for an integer.\<close>

definition digit_char :: "nat \<Rightarrow> char" where
  "digit_char n = ''0123456789'' ! n"

fun decimal :: "nat \<Rightarrow> string" where
  "decimal n = (if n < 10 then [digit_char n] else decimal (n div 10) @ [digit_char (n mod 10)])"

declare decimal.simps [simp del]

definition toString :: "int \<Rightarrow> string" where
  "toString n = (if n < 0 then ''-'' @ decimal (nat (- n)) else decimal (nat n))"

fun format_loop :: "int list \<Rightarrow> string \<Rightarrow> string" where
  "format_loop [] s = s"
| "format_loop (p # ps) s =
     (let hardened = (if truthy (js_and p HARDENED) then [CHR 0x27] else [])
      in format_loop ps (s @ ''/'' @ toString (js_and p 0x7fffffff) @ hardened))"

text \<open>The object \<open>{fingerPrint, path}\<close> that \<open>format\<close> returns, as a pair.\<close>

definition format :: "KeyOriginInfo \<Rightarrow> int \<times> string" where
  "format this = (fingerPrint this, format_loop (path this) ''m'')"

section \<open>The contracts as the specification words them\<close>

text \<open>
  Equality: the fingerprints match, the paths have equal length, and every element at the
  same index matches.
\<close>

definition spec_equals :: "KeyOriginInfo \<Rightarrow> KeyOriginInfo \<Rightarrow> bool" where
  "spec_equals a b \<longleftrightarrow>
     fingerPrint a = fingerPrint b \<and> length (path a) = length (path b)
     \<and> (\<forall>i < length (path a). path a ! i = path b ! i)"

text \<open>
  Format: for each element the decimal numeral of the element with bit 31 masked out, then
  the marker \<open>'\<close> exactly when bit 31 was set; joined with \<open>/\<close> and prefixed by \<open>m\<close>.
\<close>

definition spec_format :: "int list \<Rightarrow> string" where
  "spec_format ps =
     ''m'' @ concat (map (\<lambda>p. ''/'' @ toString (unset_bit 31 p)
                                @ (if bit p 31 then [CHR 0x27] else [])) ps)"

text \<open>The range invariant of the data model: an unsigned 32-bit integer.\<close>

definition uint32 :: "int \<Rightarrow> bool" where
  "uint32 p \<longleftrightarrow> 0 \<le> p \<and> p < 2 ^ 32"

section \<open>Properties\<close>

subsection \<open>equals\<close>

lemma equals_loop_iff:
  "equals_loop is a b \<longleftrightarrow> (\<forall>i \<in> set is. js_index a i = js_index b i)"
  by (induction "is") auto

lemma equals_iff_prefix:
  "equals this keyInfo \<longleftrightarrow>
     fingerPrint this = fingerPrint keyInfo \<and> prefix (path this) (path keyInfo)"
proof -
  have "(\<forall>i \<in> {0 ..< length a}. js_index a i = js_index b i) \<longleftrightarrow> prefix a b"
    for a b :: "int list"
  proof
    assume "\<forall>i \<in> {0 ..< length a}. js_index a i = js_index b i"
    then have h: "\<forall>i < length a. js_index a i = js_index b i" by simp
    have len: "length a \<le> length b"
    proof (rule ccontr)
      assume "\<not> length a \<le> length b"
      then have "length b < length a" by simp
      with h have "js_index a (length b) = js_index b (length b)" by blast
      with \<open>length b < length a\<close> show False by (simp add: js_index_def)
    qed
    have "a = take (length a) b"
    proof (rule nth_equalityI)
      show "length a = length (take (length a) b)" using len by simp
    next
      fix i assume "i < length a"
      with h len show "a ! i = take (length a) b ! i"
        by (auto simp: js_index_def split: if_splits)
    qed
    then show "prefix a b" by (metis take_is_prefix)
  next
    assume "prefix a b"
    then obtain c where "b = a @ c" by (auto simp: prefix_def)
    then show "\<forall>i \<in> {0 ..< length a}. js_index a i = js_index b i"
      by (simp add: js_index_def nth_append)
  qed
  then show ?thesis by (simp add: equals_def equals_loop_iff)
qed

text \<open>
  C1. The claim: \<open>equals\<close> is true iff the fingerprints match, the paths have equal length
  and agree at every index; for paths \<open>[1]\<close> and \<open>[1, 2]\<close> it is false. The code has no
  length test: with \<open>this.path = [1]\<close> and \<open>keyInfo.path = [1, 2]\<close> the loop visits index
  0 only and \<open>equals\<close> returns \<open>true\<close>, while the call with the arguments swapped returns
  \<open>false\<close>.
\<close>

theorem equals_ignores_longer_path:
  "equals \<lparr>fingerPrint = - 1, path = [1]\<rparr> \<lparr>fingerPrint = - 1, path = [1, 2]\<rparr> = True
   \<and> equals \<lparr>fingerPrint = - 1, path = [1, 2]\<rparr> \<lparr>fingerPrint = - 1, path = [1]\<rparr> = False"
  by (simp add: equals_def js_index_def upt_rec)

subsection \<open>Binary codec\<close>

lemma length_u32_bytes [simp]: "length (u32_bytes n) = 4"
  by (simp add: u32_bytes_def Let_def)

lemma toWriter_loop_fits:
  "length (wbytes bw) + 4 * length ps \<le> wsize bw \<Longrightarrow>
   toWriter_loop ps bw = Inr (bw\<lparr>wbytes := wbytes bw @ concat (map u32_bytes ps)\<rparr>)"
proof (induction ps arbitrary: bw)
  case Nil
  then show ?case by simp
next
  case (Cons p ps)
  then show ?case by (simp add: writeU32_def)
qed

lemma toRaw_bytes:
  "toRaw this = Inr (rev (u32_bytes (fingerPrint this)) @ concat (map u32_bytes (path this)))"
  by (simp add: toRaw_def toWriter_def writeU32BE_def bio_write_def getSize_def
      toWriter_loop_fits render_def length_concat comp_def sum_list_triv)

lemma byte_split: "(v::int) div 256 * 256 + uint (word_of_int v :: 8 word) = v"
  by (simp add: uint_word_of_int take_bit_eq_mod)

lemma uint_top_byte: "0 \<le> v \<Longrightarrow> v < 256 \<Longrightarrow> uint (word_of_int v :: 8 word) = v"
  by (simp add: uint_word_of_int take_bit_eq_mod)

lemma u32_value:
  assumes "0 \<le> v" "v < 2 ^ 32"
  shows "uint (word_of_int v :: 8 word) + uint (word_of_int (v div 256) :: 8 word) * 256
         + uint (word_of_int (v div 256 div 256) :: 8 word) * 65536
         + uint (word_of_int (v div 256 div 256 div 256) :: 8 word) * 16777216 = v"
proof -
  let ?a = "v div 256" let ?b = "?a div 256" let ?c = "?b div 256"
  have c: "0 \<le> ?c" "?c < 256" using assms by simp_all
  have 1: "uint (word_of_int ?c :: 8 word) = ?c" using c by (rule uint_top_byte)
  have 2: "?c * 256 + uint (word_of_int ?b :: 8 word) = ?b" by (rule byte_split)
  have 3: "?b * 256 + uint (word_of_int ?a :: 8 word) = ?a" by (rule byte_split)
  have 4: "?a * 256 + uint (word_of_int v :: 8 word) = v" by (rule byte_split)
  show ?thesis using 1 2 3 4 by linarith
qed

lemma byte_of_toUint32: "(word_of_int (toUint32 v) :: 8 word) = word_of_int v"
proof -
  have "take_bit 8 (take_bit 32 v) = take_bit 8 v" by simp
  then have "take_bit 8 (v mod 2 ^ 32) = take_bit 8 v" by (simp only: take_bit_eq_mod)
  then show ?thesis by (simp add: toUint32_def word_of_int_eq_iff)
qed

lemma enc_readU32_u32_bytes:
  "enc_readU32 (pre @ u32_bytes v @ post) (length pre) = toUint32 v"
proof -
  have r: "0 \<le> toUint32 v" "toUint32 v < 2 ^ 32" by (simp_all add: toUint32_def)
  show ?thesis
    using u32_value [OF r]
    by (simp add: enc_readU32_def u32_bytes_def Let_def byte_of_toUint32 nth_append)
qed

lemma enc_readU32BE_u32_bytes:
  "enc_readU32BE (pre @ rev (u32_bytes v) @ post) (length pre) = toUint32 v"
proof -
  have r: "0 \<le> toUint32 v" "toUint32 v < 2 ^ 32" by (simp_all add: toUint32_def)
  show ?thesis
    using u32_value [OF r]
    by (simp add: enc_readU32BE_def u32_bytes_def Let_def byte_of_toUint32 nth_append)
qed

lemma readU32_at:
  "readU32 \<lparr>rdata = pre @ u32_bytes v @ post, roffset = length pre\<rparr>
   = Inr (toUint32 v, \<lparr>rdata = pre @ u32_bytes v @ post, roffset = length pre + 4\<rparr>)"
  by (simp add: readU32_def Let_def enc_readU32_u32_bytes)

lemma readU32BE_at:
  "readU32BE \<lparr>rdata = pre @ rev (u32_bytes v) @ post, roffset = length pre\<rparr>
   = Inr (toUint32 v, \<lparr>rdata = pre @ rev (u32_bytes v) @ post, roffset = length pre + 4\<rparr>)"
  by (simp add: readU32BE_def Let_def enc_readU32BE_u32_bytes)

lemma fromReader_loop_concat:
  "fromReader_loop this \<lparr>rdata = pre @ concat (map u32_bytes ps), roffset = length pre\<rparr>
   = Inr (this\<lparr>path := path this @ map toUint32 ps\<rparr>)"
proof (induction ps arbitrary: this pre)
  case Nil
  show ?case by (subst fromReader_loop.simps) (simp add: left_def)
next
  case (Cons p ps)
  have "fromReader_loop this \<lparr>rdata = pre @ concat (map u32_bytes (p # ps)), roffset = length pre\<rparr>
        = fromReader_loop (this\<lparr>path := path this @ [toUint32 p]\<rparr>)
            \<lparr>rdata = (pre @ u32_bytes p) @ concat (map u32_bytes ps),
             roffset = length (pre @ u32_bytes p)\<rparr>"
    by (subst fromReader_loop.simps) (simp add: left_def readU32_at)
  also have "\<dots> = Inr (this\<lparr>path := path this @ map toUint32 (p # ps)\<rparr>)"
    by (subst Cons.IH) simp
  finally show ?case .
qed

lemma decode_toRaw:
  "toRaw x = Inr bs \<Longrightarrow>
   decode bs = Inr \<lparr>fingerPrint = toUint32 (fingerPrint x), path = map toUint32 (path x)\<rparr>"
proof -
  assume "toRaw x = Inr bs"
  then have bs: "bs = [] @ rev (u32_bytes (fingerPrint x)) @ concat (map u32_bytes (path x))"
    by (simp add: toRaw_bytes)
  have "fromReader_loop (new\<lparr>fingerPrint := toUint32 (fingerPrint x)\<rparr>)
          \<lparr>rdata = rev (u32_bytes (fingerPrint x)) @ concat (map u32_bytes (path x)),
           roffset = length (rev (u32_bytes (fingerPrint x)))\<rparr>
        = Inr \<lparr>fingerPrint = toUint32 (fingerPrint x), path = map toUint32 (path x)\<rparr>"
    by (subst fromReader_loop_concat) (simp add: new_def)
  then show ?thesis
    unfolding decode_def fromRaw_def fromReader_def bio_read_def bs
    using readU32BE_at [of "[]" "fingerPrint x" "concat (map u32_bytes (path x))"]
    by simp
qed

lemma toUint32_id: "uint32 p \<Longrightarrow> toUint32 p = p"
  by (simp add: uint32_def toUint32_def)

lemma fromReader_loop_total:
  "roffset br \<le> length (rdata br) \<Longrightarrow>
   (left br mod 4 = 0 \<longrightarrow> (\<exists>k. fromReader_loop this br = Inr k)) \<and>
   (left br mod 4 \<noteq> 0 \<longrightarrow> fromReader_loop this br = Inl EncodingError)"
proof (induction this br rule: fromReader_loop.induct)
  case (1 this br)
  show ?case
  proof (cases "left br = 0")
    case True
    then show ?thesis by (subst fromReader_loop.simps) simp
  next
    case nz: False
    show ?thesis
    proof (cases "roffset br + 4 > length (rdata br)")
      case True
      then have r: "readU32 br = Inl EncodingError" by (simp add: readU32_def Let_def)
      have "left br < 4" using True by (simp add: left_def)
      then have m: "left br mod 4 \<noteq> 0" using nz by simp
      have "fromReader_loop this br = Inl EncodingError"
        using nz r by (subst fromReader_loop.simps) simp
      then show ?thesis using m by simp
    next
      case False
      define br' where "br' = br\<lparr>roffset := roffset br + 4\<rparr>"
      obtain v where r: "readU32 br = Inr (v, br')"
        using False by (simp add: readU32_def Let_def br'_def)
      have "4 \<le> left br" "left br' = left br - 4"
        using False by (simp_all add: left_def br'_def)
      then have l: "left br' mod 4 = left br mod 4"
        by (simp add: le_mod_geq)
      have b: "roffset br' \<le> length (rdata br')"
        using False by (simp add: br'_def)
      have e: "fromReader_loop this br = fromReader_loop (this\<lparr>path := path this @ [v]\<rparr>) br'"
        using nz r by (subst fromReader_loop.simps) simp
      have "(left br' mod 4 = 0 \<longrightarrow>
               (\<exists>k. fromReader_loop (this\<lparr>path := path this @ [v]\<rparr>) br' = Inr k)) \<and>
            (left br' mod 4 \<noteq> 0 \<longrightarrow>
               fromReader_loop (this\<lparr>path := path this @ [v]\<rparr>) br' = Inl EncodingError)"
        using "1.IH" [OF nz r] b by simp
      then show ?thesis unfolding l e .
    qed
  qed
qed

lemma decode_total:
  "(4 \<le> length d \<and> (length d - 4) mod 4 = 0 \<longrightarrow> (\<exists>k. decode d = Inr k)) \<and>
   (\<not> (4 \<le> length d \<and> (length d - 4) mod 4 = 0) \<longrightarrow> decode d = Inl EncodingError)"
proof (cases "4 \<le> length d")
  case False
  then show ?thesis
    by (simp add: decode_def fromRaw_def fromReader_def bio_read_def readU32BE_def)
next
  case True
  then obtain v where r: "readU32BE (bio_read d) = Inr (v, \<lparr>rdata = d, roffset = 4\<rparr>)"
    by (simp add: readU32BE_def bio_read_def Let_def)
  have "left \<lparr>rdata = d, roffset = 4\<rparr> = length d - 4" by (simp add: left_def)
  with fromReader_loop_total [of "\<lparr>rdata = d, roffset = 4\<rparr>" "new\<lparr>fingerPrint := v\<rparr>"] True
  show ?thesis
    by (simp add: decode_def fromRaw_def fromReader_def r)
qed

text \<open>
  C2. The claim: fingerprint \<open>0xDEADBEEF\<close> with path \<open>[0x8000002C, 0x80000000, 5]\<close>
  encodes to \<open>DE AD BE EF 80 00 00 2C 80 00 00 00 00 00 00 05\<close>, every path element
  big-endian. \<open>toWriter\<close> writes the fingerprint with \<open>writeU32BE\<close> and every path element
  with \<open>writeU32\<close>, which is little-endian: the bytes are
  \<open>DE AD BE EF 2C 00 00 80 00 00 00 80 05 00 00 00\<close>.
\<close>

theorem toRaw_scenario_little_endian_path:
  "toRaw \<lparr>fingerPrint = 0xDEADBEEF, path = [0x8000002C, 0x80000000, 5]\<rparr>
   = Inr [0xDE, 0xAD, 0xBE, 0xEF, 0x2C, 0x00, 0x00, 0x80,
          0x00, 0x00, 0x00, 0x80, 0x05, 0x00, 0x00, 0x00]"
  by (simp add: toRaw_bytes u32_bytes_def toUint32_def)

theorem toRaw_scenario_not_big_endian_path:
  "toRaw \<lparr>fingerPrint = 0xDEADBEEF, path = [0x8000002C, 0x80000000, 5]\<rparr>
   \<noteq> Inr [0xDE, 0xAD, 0xBE, 0xEF, 0x80, 0x00, 0x00, 0x2C,
          0x80, 0x00, 0x00, 0x00, 0x00, 0x00, 0x00, 0x05]"
  by (simp add: toRaw_bytes u32_bytes_def toUint32_def)

text \<open>
  C4. Binary round trip: for a fingerprint in \<open>[0, 2^32)\<close> and a path of unsigned 32-bit
  elements (the empty path included) encoding succeeds, and decoding the bytes yields a
  value equal to the original, under the contract of equality and under \<open>equals\<close>.
\<close>

theorem decode_toRaw_roundtrip:
  assumes "uint32 (fingerPrint x)" and "\<forall>p \<in> set (path x). uint32 p"
  shows "\<exists>bs y. toRaw x = Inr bs \<and> decode bs = Inr y \<and> y = x \<and> spec_equals y x \<and> equals y x"
proof -
  obtain bs where bs: "toRaw x = Inr bs" by (simp add: toRaw_bytes)
  have "map toUint32 (path x) = path x"
    using assms(2) by (simp add: map_idI toUint32_id)
  then have "decode bs = Inr x"
    using decode_toRaw [OF bs] assms(1) by (simp add: toUint32_id)
  moreover have "spec_equals x x" by (simp add: spec_equals_def)
  moreover have "equals x x" by (simp add: equals_iff_prefix)
  ultimately show ?thesis using bs by blast
qed

theorem decode_toRaw_roundtrip_witness:
  "(\<exists>bs y. toRaw \<lparr>fingerPrint = 0xDEADBEEF, path = [0x8000002C, 0x80000000, 5]\<rparr> = Inr bs
      \<and> decode bs = Inr y
      \<and> y = \<lparr>fingerPrint = 0xDEADBEEF, path = [0x8000002C, 0x80000000, 5]\<rparr>
      \<and> spec_equals y \<lparr>fingerPrint = 0xDEADBEEF, path = [0x8000002C, 0x80000000, 5]\<rparr>
      \<and> equals y \<lparr>fingerPrint = 0xDEADBEEF, path = [0x8000002C, 0x80000000, 5]\<rparr>)
   \<and> (\<exists>bs y. toRaw \<lparr>fingerPrint = 0, path = []\<rparr> = Inr bs \<and> decode bs = Inr y
      \<and> y = \<lparr>fingerPrint = 0, path = []\<rparr>
      \<and> spec_equals y \<lparr>fingerPrint = 0, path = []\<rparr>
      \<and> equals y \<lparr>fingerPrint = 0, path = []\<rparr>)"
  using decode_toRaw_roundtrip [of "\<lparr>fingerPrint = 0xDEADBEEF, path = [0x8000002C, 0x80000000, 5]\<rparr>"]
    decode_toRaw_roundtrip [of "\<lparr>fingerPrint = 0, path = []\<rparr>"]
  by (simp add: uint32_def)

text \<open>
  C5. Decoding fails with an encoding error on every buffer shorter than 4 bytes and on
  every buffer whose length after the 4-byte fingerprint is not a multiple of 4; it
  succeeds on every buffer of length \<open>4 + 4k\<close>.
\<close>

theorem decode_length:
  "(length d < 4 \<longrightarrow> decode d = Inl EncodingError)
   \<and> (4 \<le> length d \<and> (length d - 4) mod 4 \<noteq> 0 \<longrightarrow> decode d = Inl EncodingError)
   \<and> (\<forall>k. length d = 4 + 4 * k \<longrightarrow> (\<exists>x. decode d = Inr x))"
proof -
  have "\<exists>x. decode d = Inr x" if "length d = 4 + 4 * k" for k
  proof -
    from that have "4 \<le> length d \<and> (length d - 4) mod 4 = 0" by simp
    with decode_total [of d] show ?thesis by blast
  qed
  then show ?thesis using decode_total [of d] by auto
qed

theorem decode_length_witness:
  "decode [1, 2, 3] = Inl EncodingError
   \<and> decode [1, 2, 3, 4, 5, 6] = Inl EncodingError
   \<and> (\<exists>x. decode [1, 2, 3, 4] = Inr x)
   \<and> (\<exists>x. decode [1, 2, 3, 4, 5, 6, 7, 8] = Inr x)"
proof -
  have a: "decode [1, 2, 3] = Inl EncodingError"
    using decode_length [of "[1, 2, 3]"] by simp
  have b: "decode [1, 2, 3, 4, 5, 6] = Inl EncodingError"
    using decode_length [of "[1, 2, 3, 4, 5, 6]"] by simp
  have "length [1, 2, 3, 4 :: byte] = 4 + 4 * 0" by simp
  then have c: "\<exists>x. decode [1, 2, 3, 4] = Inr x"
    using decode_length [of "[1, 2, 3, 4]"] by blast
  have "length [1, 2, 3, 4, 5, 6, 7, 8 :: byte] = 4 + 4 * 1" by simp
  then have d: "\<exists>x. decode [1, 2, 3, 4, 5, 6, 7, 8] = Inr x"
    using decode_length [of "[1, 2, 3, 4, 5, 6, 7, 8]"] by blast
  show ?thesis using a b c d by blast
qed

text \<open>
  C9. Encoding a value whose fingerprint is the unset sentinel \<open>-1\<close> does not fail: the
  fingerprint is written as \<open>FF FF FF FF\<close>, and decoding the bytes yields the fingerprint
  \<open>4294967295\<close>, not the sentinel, so the decoded value is not equal to the encoded one.
\<close>

theorem unset_fingerPrint_not_preserved:
  assumes "fingerPrint x = - 1" and "\<forall>p \<in> set (path x). uint32 p"
  shows "\<exists>bs y. toRaw x = Inr bs \<and> take 4 bs = [0xFF, 0xFF, 0xFF, 0xFF]
           \<and> decode bs = Inr y \<and> fingerPrint y = 4294967295 \<and> path y = path x
           \<and> fingerPrint y \<noteq> fingerPrint x \<and> equals y x = False"
proof -
  obtain bs where bs: "toRaw x = Inr bs" by (simp add: toRaw_bytes)
  have t: "take 4 bs = [0xFF, 0xFF, 0xFF, 0xFF]"
    using bs assms(1) by (auto simp: toRaw_bytes u32_bytes_def toUint32_def)
  have "map toUint32 (path x) = path x"
    using assms(2) by (simp add: map_idI toUint32_id)
  then have d: "decode bs = Inr \<lparr>fingerPrint = 4294967295, path = path x\<rparr>"
    using decode_toRaw [OF bs] assms(1) by (simp add: toUint32_def)
  have "equals \<lparr>fingerPrint = 4294967295, path = path x\<rparr> x = False"
    using assms(1) by (simp add: equals_def)
  then show ?thesis using bs t d assms(1) by simp
qed

theorem unset_fingerPrint_not_preserved_witness:
  "toRaw new = Inr [0xFF, 0xFF, 0xFF, 0xFF]
   \<and> toRaw (clear \<lparr>fingerPrint = 7, path = [1, 2]\<rparr>) = Inr [0xFF, 0xFF, 0xFF, 0xFF]
   \<and> decode [0xFF, 0xFF, 0xFF, 0xFF] = Inr \<lparr>fingerPrint = 4294967295, path = []\<rparr>"
proof -
  have n: "fingerPrint new = - 1" "\<forall>p \<in> set (path new). uint32 p"
    by (simp_all add: new_def)
  have c: "clear \<lparr>fingerPrint = 7, path = [1, 2]\<rparr> = new"
    by (simp add: clear_def new_def)
  from unset_fingerPrint_not_preserved [OF n]
  obtain bs y where r: "toRaw new = Inr bs" "take 4 bs = [0xFF, 0xFF, 0xFF, 0xFF]"
    "decode bs = Inr y" "fingerPrint y = 4294967295" "path y = path new"
    by blast
  have "length bs = 4" using r(1) by (auto simp: toRaw_bytes new_def)
  with r(2) have bs: "bs = [0xFF, 0xFF, 0xFF, 0xFF]" by simp
  have "y = \<lparr>fingerPrint = 4294967295, path = []\<rparr>"
    using r(4,5) by (simp add: new_def)
  then show ?thesis using r(1,3) bs c by simp
qed

subsection \<open>Formatting\<close>

lemma and_mask31: "js_and p 0x7fffffff = p mod 2 ^ 31"
proof -
  have m: "(2147483647 :: int) = mask 31" by (simp add: mask_eq_exp_minus_1)
  have "(2147483647 :: int) mod 4294967296 = 2147483647" by simp
  then have "toUint32 p AND toUint32 0x7fffffff = take_bit 32 p AND mask 31"
    unfolding toUint32_def take_bit_eq_mod m [symmetric] by simp
  also have "\<dots> = take_bit 31 (take_bit 32 p)"
    by (simp only: take_bit_eq_mask)
  also have "\<dots> = take_bit 31 p" by simp
  finally have e: "toUint32 p AND toUint32 0x7fffffff = p mod 2 ^ 31"
    by (simp only: take_bit_eq_mod)
  have "0 \<le> p mod 2 ^ 31" "p mod 2 ^ 31 < 2 ^ 31" by simp_all
  then show ?thesis unfolding js_and_def e toInt32_def by (simp add: Let_def)
qed

lemma unset_bit_31_uint32:
  assumes "uint32 p"
  shows "unset_bit 31 p = p mod 2 ^ 31"
proof -
  have p: "take_bit 32 p = p"
    using assms by (simp add: uint32_def take_bit_int_eq_self)
  have "unset_bit 31 (take_bit 32 p) = take_bit 31 p"
    by (rule bit_eqI) (auto simp: bit_unset_bit_iff bit_take_bit_iff)
  then have "unset_bit 31 p = take_bit 31 p" by (simp only: p)
  then show ?thesis by (simp only: take_bit_eq_mod)
qed

lemma and_hardened: "truthy (js_and p HARDENED) \<longleftrightarrow> bit p 31"
proof -
  define y where "y = take_bit 32 p AND (2 ^ 31 :: int)"
  have u: "toUint32 p AND toUint32 HARDENED = y"
    by (simp add: toUint32_def HARDENED_def y_def take_bit_eq_mod)
  have y0: "0 \<le> y" by (simp add: y_def)
  have y1: "y \<le> 2 ^ 31" unfolding y_def by (rule AND_upper2) simp
  have "toInt32 y = 0 \<longleftrightarrow> y = 0"
    using y0 y1 by (simp add: toInt32_def Let_def)
  also have "\<dots> \<longleftrightarrow> \<not> bit (take_bit 32 p) 31"
    unfolding y_def by (rule and_exp_eq_0_iff_not_bit)
  also have "\<dots> \<longleftrightarrow> \<not> bit p 31" by (simp add: bit_take_bit_iff)
  finally show ?thesis by (simp add: truthy_def js_and_def u)
qed

lemma format_loop_concat:
  "format_loop ps s =
     s @ concat (map (\<lambda>p. ''/'' @ toString (js_and p 0x7fffffff)
                          @ (if truthy (js_and p HARDENED) then [CHR 0x27] else [])) ps)"
  by (induction ps arbitrary: s) (simp_all add: Let_def)

text \<open>
  C8. For a path of unsigned 32-bit elements \<open>format\<close> produces \<open>m\<close> followed, for each
  element in order, by \<open>/\<close>, the decimal numeral of the element with bit 31 masked out,
  and the marker \<open>'\<close> exactly when bit 31 was set; the path
  \<open>[0x8000002C, 0x80000000, 5]\<close> formats to \<open>m/44'/0'/5\<close>.
\<close>

theorem format_matches_spec:
  "((\<forall>p \<in> set (path x). uint32 p) \<longrightarrow> format x = (fingerPrint x, spec_format (path x)))
   \<and> format \<lparr>fingerPrint = 0xDEADBEEF, path = [0x8000002C, 0x80000000, 5]\<rparr>
       = (0xDEADBEEF, ''m/44'/0'/5'')"
proof
  show "(\<forall>p \<in> set (path x). uint32 p) \<longrightarrow> format x = (fingerPrint x, spec_format (path x))"
  proof
    assume r: "\<forall>p \<in> set (path x). uint32 p"
    let ?f = "\<lambda>p. ''/'' @ toString (js_and p 0x7fffffff)
                     @ (if truthy (js_and p HARDENED) then [CHR 0x27] else [])"
    let ?g = "\<lambda>p. ''/'' @ toString (unset_bit 31 p) @ (if bit p 31 then [CHR 0x27] else [])"
    have "?f p = ?g p" if "p \<in> set (path x)" for p
      using r that by (simp add: and_mask31 and_hardened unset_bit_31_uint32)
    then have "map ?f (path x) = map ?g (path x)" by (rule map_cong [OF refl])
    then have "format_loop (path x) ''m'' = spec_format (path x)"
      unfolding format_loop_concat spec_format_def by (rule arg_cong)
    then show "format x = (fingerPrint x, spec_format (path x))"
      by (simp add: format_def)
  qed
next
  show "format \<lparr>fingerPrint = 0xDEADBEEF, path = [0x8000002C, 0x80000000, 5]\<rparr>
        = (0xDEADBEEF, ''m/44'/0'/5'')"
    by (simp add: format_def js_and_def toInt32_def toUint32_def HARDENED_def truthy_def
        toString_def decimal.simps digit_char_def)
qed

theorem format_matches_spec_witness:
  "format \<lparr>fingerPrint = 1, path = [0x80000001, 7]\<rparr> = (1, spec_format [0x80000001, 7])
   \<and> spec_format [0x80000001, 7] = ''m/1'/7''"
proof -
  have r: "\<forall>p \<in> set (path \<lparr>fingerPrint = 1, path = [0x80000001, 7]\<rparr>). uint32 p"
    by (simp add: uint32_def)
  have f: "format \<lparr>fingerPrint = 1, path = [0x80000001, 7]\<rparr> = (1, spec_format [0x80000001, 7])"
    using format_matches_spec [of "\<lparr>fingerPrint = 1, path = [0x80000001, 7]\<rparr>"] r by simp
  have "format \<lparr>fingerPrint = 1, path = [0x80000001, 7]\<rparr> = (1, ''m/1'/7'')"
    by (simp add: format_def js_and_def toInt32_def toUint32_def HARDENED_def truthy_def
        toString_def decimal.simps digit_char_def)
  with f show ?thesis by simp
qed

subsection \<open>Zero fingerprints\<close>

lemma fromJSON_loop_fingerPrint:
  "fromJSON_loop ps this = Inr k \<Longrightarrow> fingerPrint k = fingerPrint this"
  by (induction ps arbitrary: this) (auto split: if_splits)

text \<open>
  C7. On JSON import a \<open>fingerPrint\<close> field of literal \<open>0\<close> is treated as an absent
  field: the import gives the same result, and the fingerprint of the constructed value is the
  unset sentinel \<open>-1\<close>.
\<close>

theorem fromJSON_zero_fingerPrint:
  "fromJSON parsePath new (json\<lparr>o_fingerPrint := Some 0\<rparr>)
     = fromJSON parsePath new (json\<lparr>o_fingerPrint := None\<rparr>)
   \<and> (\<forall>k. fromJSON parsePath new (json\<lparr>o_fingerPrint := Some 0\<rparr>) = Inr k
          \<longrightarrow> fingerPrint k = - 1)"
proof
  show "fromJSON parsePath new (json\<lparr>o_fingerPrint := Some 0\<rparr>)
        = fromJSON parsePath new (json\<lparr>o_fingerPrint := None\<rparr>)"
    by (simp add: fromJSON_def truthy_def)
  show "\<forall>k. fromJSON parsePath new (json\<lparr>o_fingerPrint := Some 0\<rparr>) = Inr k
          \<longrightarrow> fingerPrint k = - 1"
    by (auto simp: fromJSON_def truthy_def new_def
        split: if_splits path_value.splits sum.splits dest: fromJSON_loop_fingerPrint)
qed

theorem fromJSON_zero_fingerPrint_witness:
  "fromJSON (\<lambda>v. Inl PathError) new \<lparr>o_fingerPrint = Some 0, o_path = PathArray [44, 5]\<rparr>
     = Inr \<lparr>fingerPrint = - 1, path = [44, 5]\<rparr>
   \<and> fingerPrint \<lparr>fingerPrint = - 1, path = [44, 5]\<rparr> = - 1"
proof -
  have e: "fromJSON (\<lambda>v. Inl PathError) new
             (\<lparr>o_fingerPrint = Some 0, o_path = PathArray [44, 5]\<rparr>\<lparr>o_fingerPrint := Some 0\<rparr>)
           = Inr \<lparr>fingerPrint = - 1, path = [44, 5]\<rparr>"
    by (simp add: fromJSON_def truthy_def new_def isUint32_def toUint32_def)
  from fromJSON_zero_fingerPrint
    [of "\<lambda>v. Inl PathError" "\<lparr>o_fingerPrint = Some 0, o_path = PathArray [44, 5]\<rparr>"] e
  have "fingerPrint \<lparr>fingerPrint = - 1, path = [44, 5]\<rparr> = - 1" by blast
  with e show ?thesis by simp
qed

text \<open>
  C10. Construction from an options object whose \<open>fingerPrint\<close> is literal \<open>0\<close> leaves
  the fingerprint at the unset sentinel \<open>-1\<close>, as for an absent field.
\<close>

theorem fromOptions_zero_fingerPrint:
  "fromOptions parsePath new (opts\<lparr>o_fingerPrint := Some 0\<rparr>)
     = fromOptions parsePath new (opts\<lparr>o_fingerPrint := None\<rparr>)
   \<and> constructor parsePath (Some (opts\<lparr>o_fingerPrint := Some 0\<rparr>))
     = fromOptions parsePath new (opts\<lparr>o_fingerPrint := Some 0\<rparr>)
   \<and> (\<forall>k. fromOptions parsePath new (opts\<lparr>o_fingerPrint := Some 0\<rparr>) = Inr k
          \<longrightarrow> fingerPrint k = - 1)"
proof (intro conjI)
  show "fromOptions parsePath new (opts\<lparr>o_fingerPrint := Some 0\<rparr>)
        = fromOptions parsePath new (opts\<lparr>o_fingerPrint := None\<rparr>)"
    by (simp add: fromOptions_def truthy_def)
  show "constructor parsePath (Some (opts\<lparr>o_fingerPrint := Some 0\<rparr>))
        = fromOptions parsePath new (opts\<lparr>o_fingerPrint := Some 0\<rparr>)"
    by (simp add: constructor_def)
  show "\<forall>k. fromOptions parsePath new (opts\<lparr>o_fingerPrint := Some 0\<rparr>) = Inr k
          \<longrightarrow> fingerPrint k = - 1"
    by (auto simp: fromOptions_def truthy_def new_def
        split: if_splits path_value.splits sum.splits)
qed

theorem fromOptions_zero_fingerPrint_witness:
  "fromOptions (\<lambda>v. Inl PathError) new \<lparr>o_fingerPrint = Some 0, o_path = PathArray [44, 5]\<rparr>
     = Inr \<lparr>fingerPrint = - 1, path = [44, 5]\<rparr>
   \<and> fingerPrint \<lparr>fingerPrint = - 1, path = [44, 5]\<rparr> = - 1"
proof -
  have e: "fromOptions (\<lambda>v. Inl PathError) new
             (\<lparr>o_fingerPrint = Some 0, o_path = PathArray [44, 5]\<rparr>\<lparr>o_fingerPrint := Some 0\<rparr>)
           = Inr \<lparr>fingerPrint = - 1, path = [44, 5]\<rparr>"
    by (simp add: fromOptions_def truthy_def new_def isUint32_def toUint32_def)
  from fromOptions_zero_fingerPrint
    [of "\<lambda>v. Inl PathError" "\<lparr>o_fingerPrint = Some 0, o_path = PathArray [44, 5]\<rparr>"] e
  have "fingerPrint \<lparr>fingerPrint = - 1, path = [44, 5]\<rparr> = - 1" by blast
  with e show ?thesis by simp
qed

subsection \<open>Range of the stored numbers\<close>

lemma isUint32_iff: "isUint32 p \<longleftrightarrow> uint32 p"
proof
  assume "isUint32 p"
  then have e: "p mod 2 ^ 32 = p" by (simp add: isUint32_def toUint32_def)
  have "0 \<le> p mod 2 ^ 32 \<and> p mod 2 ^ 32 < 2 ^ 32" by simp
  then show "uint32 p" unfolding uint32_def e .
next
  assume "uint32 p"
  then show "isUint32 p" by (simp add: isUint32_def toUint32_id)
qed

lemma fromOptions_array_range:
  assumes "fromOptions parsePath new \<lparr>o_fingerPrint = f, o_path = PathArray ps\<rparr> = Inr k"
  shows "(fingerPrint k = - 1 \<or> uint32 (fingerPrint k)) \<and> (\<forall>p \<in> set (path k). uint32 p)"
proof (cases "list_all isUint32 ps")
  case False
  with assms show ?thesis
    by (simp add: fromOptions_def split: option.splits if_splits)
next
  case True
  then have ps: "\<forall>p \<in> set ps. uint32 p" by (simp add: list_all_iff isUint32_iff)
  show ?thesis
  proof (cases f)
    case None
    with assms True ps show ?thesis by (auto simp: fromOptions_def new_def)
  next
    case (Some fp)
    with assms True ps show ?thesis
      by (auto simp: fromOptions_def new_def isUint32_iff split: if_splits)
  qed
qed

lemma fromJSON_loop_range:
  "fromJSON_loop ps this = Inr k \<Longrightarrow> \<forall>p \<in> set (path this). uint32 p \<Longrightarrow>
   \<forall>p \<in> set (path k). uint32 p"
proof (induction ps arbitrary: this)
  case Nil
  then show ?case by simp
next
  case (Cons q qs)
  from Cons.prems(1) have q: "isUint32 q"
    and r: "fromJSON_loop qs (this\<lparr>path := path this @ [q]\<rparr>) = Inr k"
    by (simp_all split: if_splits)
  have "\<forall>p \<in> set (path (this\<lparr>path := path this @ [q]\<rparr>)). uint32 p"
    using Cons.prems(2) q by (simp add: isUint32_iff)
  with Cons.IH [OF r] show ?case .
qed

lemma fromJSON_array_range:
  assumes "fromJSON parsePath new \<lparr>o_fingerPrint = f, o_path = PathArray ps\<rparr> = Inr k"
    and "ps \<noteq> []"
  shows "(fingerPrint k = - 1 \<or> uint32 (fingerPrint k)) \<and> (\<forall>p \<in> set (path k). uint32 p)"
proof -
  define this1 where
    "this1 = (case f of None \<Rightarrow> new | Some fp \<Rightarrow> if truthy fp then new\<lparr>fingerPrint := fp\<rparr> else new)"
  have ok: "f = None \<or> (\<exists>fp. f = Some fp \<and> (truthy fp \<longrightarrow> isUint32 fp))"
    using assms(1) by (cases f) (auto simp: fromJSON_def split: if_splits)
  then have l: "fromJSON_loop ps this1 = Inr k"
    using assms by (auto simp: fromJSON_def this1_def)
  have p1: "path this1 = []"
    by (simp add: this1_def new_def split: option.splits)
  have f1: "fingerPrint this1 = - 1 \<or> uint32 (fingerPrint this1)"
    using ok by (auto simp: this1_def new_def isUint32_iff)
  from fromJSON_loop_range [OF l] p1 have "\<forall>p \<in> set (path k). uint32 p" by simp
  moreover from fromJSON_loop_fingerPrint [OF l] f1
  have "fingerPrint k = - 1 \<or> uint32 (fingerPrint k)" by simp
  ultimately show ?thesis by simp
qed

lemma byte_bounds: "0 \<le> uint (b :: byte)" "uint (b :: byte) \<le> 255"
proof -
  show "0 \<le> uint b" by simp
  have "uint b < 2 ^ LENGTH(8)" by (rule uint_bounded)
  then show "uint b \<le> 255" by simp
qed

lemma enc_readU32_range: "uint32 (enc_readU32 d off)"
  using byte_bounds [of "d ! off"] byte_bounds [of "d ! (off + 1)"]
    byte_bounds [of "d ! (off + 2)"] byte_bounds [of "d ! (off + 3)"]
  by (simp add: enc_readU32_def uint32_def)

lemma enc_readU32BE_range: "uint32 (enc_readU32BE d off)"
  using byte_bounds [of "d ! off"] byte_bounds [of "d ! (off + 1)"]
    byte_bounds [of "d ! (off + 2)"] byte_bounds [of "d ! (off + 3)"]
  by (simp add: enc_readU32BE_def uint32_def)

lemma fromReader_loop_range:
  "fromReader_loop this br = Inr k \<Longrightarrow> \<forall>p \<in> set (path this). uint32 p \<Longrightarrow>
   fingerPrint k = fingerPrint this \<and> (\<forall>p \<in> set (path k). uint32 p)"
proof (induction this br rule: fromReader_loop.induct)
  case (1 this br)
  show ?case
  proof (cases "left br = 0")
    case True
    with "1.prems" show ?thesis by (subst (asm) fromReader_loop.simps) auto
  next
    case False
    with "1.prems"(1) obtain r where r: "readU32 br = Inr r"
      and k: "fromReader_loop (this\<lparr>path := path this @ [fst r]\<rparr>) (snd r) = Inr k"
      by (subst (asm) fromReader_loop.simps) (auto split: sum.splits)
    have "uint32 (fst r)"
      using r by (auto simp: readU32_def Let_def enc_readU32_range split: if_splits)
    with "1.prems"(2) have "\<forall>p \<in> set (path (this\<lparr>path := path this @ [fst r]\<rparr>)). uint32 p"
      by simp
    from "1.IH" [OF False r k this] show ?thesis by simp
  qed
qed

lemma decode_range:
  assumes "decode d = Inr k"
  shows "uint32 (fingerPrint k) \<and> (\<forall>p \<in> set (path k). uint32 p)"
proof -
  from assms obtain r where r: "readU32BE (bio_read d) = Inr r"
    and k: "fromReader_loop (new\<lparr>fingerPrint := fst r\<rparr>) (snd r) = Inr k"
    by (auto simp: decode_def fromRaw_def fromReader_def split: sum.splits)
  have "uint32 (fst r)"
    using r by (auto simp: readU32BE_def Let_def enc_readU32BE_range split: if_splits)
  moreover have "\<forall>p \<in> set (path (new\<lparr>fingerPrint := fst r\<rparr>)). uint32 p"
    by (simp add: new_def)
  from fromReader_loop_range [OF k this]
  have "fingerPrint k = fst r \<and> (\<forall>p \<in> set (path k). uint32 p)" by simp
  ultimately show ?thesis by simp
qed

subsection \<open>Derivation from a wallet key\<close>

lemma js_or_HARDENED:
  assumes "0 \<le> a" "a < 2 ^ 31"
  shows "js_or a HARDENED = a - 2 ^ 31"
proof -
  have t: "take_bit 32 a = a" using assms by (simp add: take_bit_int_eq_self)
  have "take_bit 31 a = a" using assms by (simp add: take_bit_int_eq_self)
  then have "bit a 31 = bit (take_bit 31 a) 31" by simp
  also have "\<dots> = False" by (simp add: bit_take_bit_iff)
  finally have nb: "\<not> bit a 31" by simp
  have "a AND (2 ^ 31 :: int) = 0"
    using nb and_exp_eq_0_iff_not_bit [of a 31] by blast
  then have "a + (2 ^ 31 :: int) = a OR 2 ^ 31"
    by (rule disjunctive_add_eq_or)
  then have "a OR (2 ^ 31 :: int) = a + 2 ^ 31" by simp
  then have "toUint32 a OR toUint32 HARDENED = a + 2 ^ 31"
    using t by (simp add: toUint32_def HARDENED_def take_bit_eq_mod)
  then show ?thesis
    using assms by (simp add: js_or_def toInt32_def Let_def)
qed

lemma js_or_HARDENED_pattern:
  assumes "0 \<le> a" "a < 2 ^ 31"
  shows "toUint32 (js_or a HARDENED) = a + 2 ^ 31"
proof -
  have "(a - 2 ^ 31) mod 2 ^ 32 = (a + 2 ^ 31 + (- 1) * 2 ^ 32) mod 2 ^ 32" by simp
  also have "\<dots> = (a + 2 ^ 31) mod 2 ^ 32" by (rule mod_mult_self1)
  also have "\<dots> = a + 2 ^ 31" using assms by simp
  finally show ?thesis using assms by (simp add: js_or_HARDENED toUint32_def)
qed

lemma fromWalletKey_result:
  assumes "4 \<le> length (hash160 (publicKey wk))"
  shows "fromWalletKey hash160 new wk
         = Inr \<lparr>fingerPrint = enc_readU32BE (hash160 (publicKey wk)) 0,
                path = [js_or (account wk) HARDENED, branch wk, index wk]\<rparr>"
  using assms by (simp add: fromWalletKey_def readUInt32BE_def new_def)

text \<open>
  C3. The claim: after every successful construction each path element is a nonnegative
  unsigned 32-bit integer. \<open>fromWalletKey\<close> pushes \<open>wk.account | common.HARDENED\<close>, and the
  bitwise or of JavaScript returns a signed 32-bit value: for account 5 the first path
  element is \<open>-2147483643\<close>.
\<close>

theorem fromWalletKey_stores_negative_element:
  "\<exists>k. fromWalletKey (\<lambda>pk. replicate 20 0) new
          \<lparr>publicKey = [], account = 5, branch = 0, index = 3\<rparr> = Inr k
       \<and> path k ! 0 < 0 \<and> map uint32 (path k) = [False, True, True]"
  by (simp add: fromWalletKey_def readUInt32BE_def enc_readU32BE_def new_def js_or_def
      HARDENED_def toInt32_def toUint32_def uint32_def)

text \<open>
  C6. The claim: for account 5, branch 0 and index 3 the derived path is
  \<open>[5 | 0x80000000, 0, 3]\<close>, whose first element is the unsigned 32-bit integer
  \<open>0x80000005\<close>, and the fingerprint is the first four bytes of the digest, big-endian. The
  code reads the fingerprint so, and stores the path \<open>[-2147483643, 0, 3]\<close>.
\<close>

theorem fromWalletKey_scenario:
  "fromWalletKey (\<lambda>pk. [0xDE, 0xAD, 0xBE, 0xEF] @ replicate 16 0) new
     \<lparr>publicKey = [2, 3], account = 5, branch = 0, index = 3\<rparr>
   = Inr \<lparr>fingerPrint = 0xDEADBEEF, path = [- 2147483643, 0, 3]\<rparr>
   \<and> [- 2147483643, 0, 3] \<noteq> [5 OR 0x80000000, 0, 3 :: int]"
  by (simp add: fromWalletKey_def readUInt32BE_def enc_readU32BE_def new_def js_or_def
      HARDENED_def toInt32_def toUint32_def)

end
